theory Spec2Isabelle
  imports Main "HOL-Library.Sublist"
begin

section \<open>JavaScript values\<close>

text \<open>
  Both source files are JavaScript. The fields the code reads are untyped, and the
  operators \<^verbatim>\<open>&&\<close>, \<^verbatim>\<open>||\<close> and \<^verbatim>\<open>!\<close> work on the truthiness of
  any value, so values are modelled as a datatype with the language's notion of truthiness.
  Objects are compared by identity (\<^verbatim>\<open>===\<close>); an object value is its reference.
  Numbers are abstracted to integers plus NaN: only whether a number is zero or NaN
  matters to the code modelled here.
\<close>

type_synonym ref = nat

datatype jsval =
    JUndefined
  | JNull
  | JBool bool
  | JNum int
  | JNaN
  | JStr string
  | JObj ref

fun truthy :: "jsval \<Rightarrow> bool" where
  "truthy JUndefined = False"
| "truthy JNull = False"
| "truthy (JBool b) = b"
| "truthy (JNum n) = (n \<noteq> 0)"
| "truthy JNaN = False"
| "truthy (JStr s) = (s \<noteq> [])"
| "truthy (JObj r) = True"

text \<open>\<^verbatim>\<open>a && b\<close> is \<^verbatim>\<open>a\<close> when \<^verbatim>\<open>a\<close> is falsy and \<^verbatim>\<open>b\<close> otherwise;
  \<^verbatim>\<open>a || b\<close> is \<^verbatim>\<open>a\<close> when \<^verbatim>\<open>a\<close> is truthy and \<^verbatim>\<open>b\<close> otherwise;
  \<^verbatim>\<open>!a\<close> is always a boolean.\<close>

definition js_and :: "jsval \<Rightarrow> jsval \<Rightarrow> jsval" where
  "js_and a b = (if truthy a then b else a)"

definition js_or :: "jsval \<Rightarrow> jsval \<Rightarrow> jsval" where
  "js_or a b = (if truthy a then a else b)"

definition js_not :: "jsval \<Rightarrow> jsval" where
  "js_not a = JBool (\<not> truthy a)"

text \<open>An object literal or options bag: property names with their values, in order.
  Reading a property that is absent gives \<^verbatim>\<open>undefined\<close>.\<close>

type_synonym jsobject = "(string \<times> jsval) list"

definition getProp :: "jsobject \<Rightarrow> string \<Rightarrow> jsval" where
  "getProp obj k = (case map_of obj k of None \<Rightarrow> JUndefined | Some v \<Rightarrow> v)"

text \<open>\<^verbatim>\<open>String.prototype.slice(beginIndex, endIndex)\<close>: a negative index counts from the
  end, both indices are clamped to the string, and an empty range gives the empty string.
  A string is its list of code units.\<close>

definition slice :: "'a list \<Rightarrow> int \<Rightarrow> int \<Rightarrow> 'a list" where
  "slice s beginIndex endIndex =
     (let len = int (length s);
          first = (if beginIndex < 0 then max (len + beginIndex) 0 else min beginIndex len);
          final = (if endIndex < 0 then max (len + endIndex) 0 else min endIndex len)
      in take (nat (max (final - first) 0)) (drop (nat first) s))"


section \<open>The Monitor class\<close>

text \<open>
  \<^verbatim>\<open>msg.author\<close> is a user object with a \<^verbatim>\<open>bot\<close> property; \<^verbatim>\<open>ident\<close> is the
  identity of that object, which is what \<^verbatim>\<open>===\<close> compares. \<^verbatim>\<open>client.user\<close> is
  the client's own user object, or \<^verbatim>\<open>null\<close> before login (\<open>None\<close>).
\<close>

record User =
  ident :: ref
  bot :: jsval

record KlasaMessage =
  author :: User
  webhookID :: jsval

record KlasaClient =
  user :: "ref option"
  pieceDefaults_monitors :: jsobject

record Monitor =
  client :: KlasaClient
  dir :: string
  "file" :: string
  name :: jsval
  type :: string
  enabled :: jsval
  ignoreBots :: jsval
  ignoreSelf :: jsval
  ignoreOthers :: jsval
  ignoreWebhooks :: jsval

text \<open>
  The constructor. \<^verbatim>\<open>mergeDefault\<close> comes from a utility module that is not part of the
  sources at hand, so it is a parameter; whatever it throws propagates (\<open>Inl\<close>).
  The optional argument \<^verbatim>\<open>options = {}\<close> is \<open>None\<close> when the caller leaves it out.
\<close>

definition Monitor_new ::
  "(jsobject \<Rightarrow> jsobject \<Rightarrow> 'e + jsobject) \<Rightarrow> KlasaClient \<Rightarrow> string \<Rightarrow> string \<Rightarrow>
     jsobject option \<Rightarrow> 'e + Monitor" where
  "Monitor_new mergeDefault client' dir' file' options =
     (case mergeDefault (pieceDefaults_monitors client')
             (case options of None \<Rightarrow> [] | Some given \<Rightarrow> given) of
        Inl e \<Rightarrow> Inl e
      | Inr merged \<Rightarrow>
          Inr \<lparr> client = client',
                dir = dir',
                file = file',
                name = js_or (getProp merged ''name'') (JStr (slice file' 0 (- 3))),
                type = ''monitor'',
                enabled = getProp merged ''enabled'',
                ignoreBots = getProp merged ''ignoreBots'',
                ignoreSelf = getProp merged ''ignoreSelf'',
                ignoreOthers = getProp merged ''ignoreOthers'',
                ignoreWebhooks = getProp merged ''ignoreWebhooks'' \<rparr>)"

text \<open>
  A method is modelled as a function from the receiver (and its arguments) to the returned
  value paired with the receiver after the call. Subclass instances are extensions of the
  record, so the methods are stated on the record scheme.

  \<^verbatim>\<open>run() {}\<close> and \<^verbatim>\<open>async init() {}\<close> have empty bodies: they return
  \<^verbatim>\<open>undefined\<close> (for \<^verbatim>\<open>init\<close>, the value its promise resolves with).
\<close>

definition run :: "'a Monitor_scheme \<Rightarrow> KlasaMessage \<Rightarrow> jsval \<times> 'a Monitor_scheme" where
  "run this msg = (JUndefined, this)"

definition init :: "'a Monitor_scheme \<Rightarrow> jsval \<times> 'a Monitor_scheme" where
  "init this = (JUndefined, this)"

text \<open>The two identity tests of \<^verbatim>\<open>shouldRun\<close>:
  \<^verbatim>\<open>this.client.user === msg.author\<close> and \<^verbatim>\<open>this.client.user !== msg.author\<close>.\<close>

definition isSelfAuthor :: "'a Monitor_scheme \<Rightarrow> KlasaMessage \<Rightarrow> bool" where
  "isSelfAuthor this msg = (user (client this) = Some (ident (author msg)))"

definition isOtherAuthor :: "'a Monitor_scheme \<Rightarrow> KlasaMessage \<Rightarrow> bool" where
  "isOtherAuthor this msg = (user (client this) \<noteq> Some (ident (author msg)))"

definition shouldRun :: "'a Monitor_scheme \<Rightarrow> KlasaMessage \<Rightarrow> jsval \<times> 'a Monitor_scheme" where
  "shouldRun this msg =
     (js_and (js_and (js_and (js_and
        (enabled this)
        (js_not (js_and (ignoreBots this) (bot (author msg)))))
        (js_not (js_and (ignoreSelf this) (JBool (isSelfAuthor this msg)))))
        (js_not (js_and (ignoreOthers this) (JBool (isOtherAuthor this msg)))))
        (js_not (js_and (ignoreWebhooks this) (webhookID msg))),
      this)"

definition toJSON :: "'a Monitor_scheme \<Rightarrow> jsobject" where
  "toJSON this =
     [(''dir'', JStr (dir this)),
      (''file'', JStr (file this)),
      (''name'', name this),
      (''type'', JStr (type this)),
      (''enabled'', enabled this),
      (''ignoreBots'', ignoreBots this),
      (''ignoreSelf'', ignoreSelf this),
      (''ignoreOthers'', ignoreOthers this),
      (''ignoreWebhooks'', ignoreWebhooks this)]"

text \<open>The two message properties that are read through truthiness.\<close>

definition isBot :: "KlasaMessage \<Rightarrow> bool" where
  "isBot msg = truthy (bot (author msg))"

definition hasWebhookId :: "KlasaMessage \<Rightarrow> bool" where
  "hasWebhookId msg = truthy (webhookID msg)"


section \<open>The bulk-delete event handler\<close>

text \<open>
  The handler receives the cache of deleted messages, a map from message id to message
  object, and walks \<^verbatim>\<open>messages.values()\<close> in insertion order. Message objects are
  shared and mutable (a response can be reached from several places, and deleting it marks
  it), so they live in a store indexed by reference. \<^verbatim>\<open>message.command\<close> is a command
  object or \<^verbatim>\<open>null\<close> (\<open>None\<close>); \<^verbatim>\<open>message.responses\<close> is the array of response
  messages, held by reference.
\<close>

record Command =
  deletable :: jsval

record Message =
  command :: "Command option"
  responses :: "ref list"
  deleted :: jsval

type_synonym store = "ref \<Rightarrow> Message"

type_synonym snowflake = string

type_synonym cache = "(snowflake \<times> ref) list"

definition values_of :: "cache \<Rightarrow> ref list" where
  "values_of messages = map snd messages"

text \<open>
  \<^verbatim>\<open>msg.delete()\<close> belongs to the chat library, not to this repository: it is a parameter
  that, called on a message in a store, either rejects with an error or resolves, leaving a
  new store. What the handler does with it is recorded as a trace of events, each with the
  source message being processed and the response concerned: the call, and how the awaited
  promise settled.
\<close>

type_synonym 'e delete = "ref \<Rightarrow> store \<Rightarrow> 'e + store"

datatype event =
    DeleteCall ref ref
  | DeleteResolved ref ref
  | DeleteRejected ref ref

text \<open>The inner loop, \<^verbatim>\<open>for (const msg of message.responses)\<close>. The deleted mark
  of each response is read from the store as it is when the loop reaches it. The collection
  itself is walked as it is when the loop starts; JavaScript walks the array object, so the
  two agree as long as no delete adds, removes or moves entries of a responses array, which
  is part of what \<open>marks_only\<close> below asks of the library. Every property of the handler
  in this theory is stated under that assumption. A rejected \<^verbatim>\<open>await\<close> throws out of
  both loops, so nothing after it runs.\<close>

fun delete_responses ::
  "'e delete \<Rightarrow> ref \<Rightarrow> ref list \<Rightarrow> store \<Rightarrow> event list \<times> ('e + store)" where
  "delete_responses del message [] s = ([], Inr s)"
| "delete_responses del message (msg # rest) s =
     (if \<not> truthy (deleted (s msg)) then
        (case del msg s of
           Inl e \<Rightarrow> ([DeleteCall message msg, DeleteRejected message msg], Inl e)
         | Inr s' \<Rightarrow>
             (case delete_responses del message rest s' of
                (evs, out) \<Rightarrow> (DeleteCall message msg # DeleteResolved message msg # evs, out)))
      else delete_responses del message rest s)"

text \<open>The test \<^verbatim>\<open>message.command && message.command.deletable\<close>.\<close>

definition command_deletable :: "Message \<Rightarrow> bool" where
  "command_deletable m = (case command m of None \<Rightarrow> False | Some c \<Rightarrow> truthy (deletable c))"

text \<open>The outer loop, \<^verbatim>\<open>for (const message of messages.values())\<close>.\<close>

fun run_messages :: "'e delete \<Rightarrow> ref list \<Rightarrow> store \<Rightarrow> event list \<times> ('e + store)" where
  "run_messages del [] s = ([], Inr s)"
| "run_messages del (message # rest) s =
     (if command_deletable (s message) then
        (case delete_responses del message (responses (s message)) s of
           (evs, Inl e) \<Rightarrow> (evs, Inl e)
         | (evs, Inr s') \<Rightarrow>
             (case run_messages del rest s' of (evs', out) \<Rightarrow> (evs @ evs', out)))
      else run_messages del rest s)"

definition coreMessageDeleteBulk_run ::
  "'e delete \<Rightarrow> cache \<Rightarrow> store \<Rightarrow> event list \<times> ('e + store)" where
  "coreMessageDeleteBulk_run del messages s = run_messages del (values_of messages) s"

text \<open>Reading a trace: the responses a delete was called on, in order; those called while
  a given source message was being processed; and whether every call is settled before the
  next one is made.\<close>

fun requested :: "event list \<Rightarrow> ref list" where
  "requested [] = []"
| "requested (DeleteCall src r # evs) = r # requested evs"
| "requested (_ # evs) = requested evs"

fun requested_for :: "ref \<Rightarrow> event list \<Rightarrow> ref list" where
  "requested_for m [] = []"
| "requested_for m (DeleteCall src r # evs) =
     (if src = m then r # requested_for m evs else requested_for m evs)"
| "requested_for m (_ # evs) = requested_for m evs"

fun one_at_a_time :: "event list \<Rightarrow> bool" where
  "one_at_a_time [] = True"
| "one_at_a_time (DeleteCall src r # DeleteResolved src' r' # evs) =
     (src' = src \<and> r' = r \<and> one_at_a_time evs)"
| "one_at_a_time [DeleteCall src r, DeleteRejected src' r'] = (src' = src \<and> r' = r)"
| "one_at_a_time _ = False"

text \<open>
  What the chat library's \<^verbatim>\<open>delete\<close> may do to the store: when it resolves, nothing
  has changed except the deleted mark of the message it was called on.
\<close>

definition marks_only :: "'e delete \<Rightarrow> bool" where
  "marks_only del \<longleftrightarrow>
     (\<forall>r s s'. del r s = Inr s' \<longrightarrow> (\<exists>d. s' = s(r := (s r)\<lparr>deleted := d\<rparr>)))"


text \<open>A resolved delete may have changed the deleted mark of the messages in \<open>R\<close> and
  nothing else.\<close>

definition unchanged_outside :: "ref set \<Rightarrow> store \<Rightarrow> store \<Rightarrow> bool" where
  "unchanged_outside R s s' \<longleftrightarrow>
     (\<forall>x. command (s' x) = command (s x) \<and> responses (s' x) = responses (s x)
          \<and> (x \<notin> R \<longrightarrow> deleted (s' x) = deleted (s x)))"


section \<open>Example inputs\<close>

text \<open>
  Concrete inputs on which the definitions are run. \<open>example_mergeDefault\<close> is an instance
  of the merge utility in which the caller's options take precedence over the defaults;
  \<open>default_monitor\<close> is the monitor the constructor builds from the documented defaults,
  for the file \<^verbatim>\<open>ping.js\<close> and a client whose own user is object 1.
\<close>

definition example_mergeDefault :: "jsobject \<Rightarrow> jsobject \<Rightarrow> unit + jsobject" where
  "example_mergeDefault def given = Inr (given @ def)"

definition example_client :: KlasaClient where
  "example_client =
     \<lparr> user = Some 1,
       pieceDefaults_monitors =
         [(''enabled'', JBool True), (''ignoreBots'', JBool True),
          (''ignoreSelf'', JBool True), (''ignoreOthers'', JBool True)] \<rparr>"

definition default_monitor :: Monitor where
  "default_monitor =
     \<lparr> client = example_client, dir = ''monitors'', file = ''ping.js'', name = JStr ''ping'',
       type = ''monitor'', enabled = JBool True, ignoreBots = JBool True,
       ignoreSelf = JBool True, ignoreOthers = JBool True, ignoreWebhooks = JUndefined \<rparr>"

definition example_monitor :: Monitor where
  "example_monitor =
     default_monitor\<lparr> ignoreSelf := JBool False, ignoreOthers := JBool False,
       ignoreWebhooks := JBool True \<rparr>"

text \<open>A message written by a human other than the client, and one sent through a webhook
  by a bot.\<close>

definition example_message :: KlasaMessage where
  "example_message = \<lparr> author = \<lparr> ident = 2, bot = JBool False \<rparr>, webhookID = JNull \<rparr>"

definition webhook_message :: KlasaMessage where
  "webhook_message =
     \<lparr> author = \<lparr> ident = 3, bot = JBool True \<rparr>, webhookID = JStr ''4242'' \<rparr>"

text \<open>
  A store for the handler. Message 0 has a deletable command and two responses, 1 (already
  deleted) and 2 (not yet); message 3 has no command and message 5 a command that is not
  deletable, each with one response that is not deleted; message 7 has a deletable command
  and two responses, 8 and 9, neither deleted.
\<close>

definition blank_message :: Message where
  "blank_message = \<lparr> command = None, responses = [], deleted = JBool False \<rparr>"

definition example_store :: store where
  "example_store =
     (\<lambda>_. blank_message)
       (0 := \<lparr> command = Some \<lparr> deletable = JBool True \<rparr>, responses = [1, 2],
               deleted = JBool True \<rparr>,
        1 := blank_message\<lparr> deleted := JBool True \<rparr>,
        3 := \<lparr> command = None, responses = [4], deleted = JBool True \<rparr>,
        5 := \<lparr> command = Some \<lparr> deletable = JBool False \<rparr>, responses = [6],
               deleted = JBool True \<rparr>,
        7 := \<lparr> command = Some \<lparr> deletable = JBool True \<rparr>, responses = [8, 9],
               deleted = JBool True \<rparr>)"

definition example_cache :: cache where
  "example_cache = [(''100'', 0), (''103'', 3), (''105'', 5)]"

text \<open>A mapping over the same store that holds messages 7, 3 and 0 in that order.\<close>

definition order_cache :: cache where
  "order_cache = [(''107'', 7), (''103'', 3), (''100'', 0)]"

text \<open>A store in which one response, 2, is recorded both for message 0, whose command is
  deletable, and for message 3, which has no command.\<close>

definition shared_store :: store where
  "shared_store =
     (\<lambda>_. blank_message)
       (0 := \<lparr> command = Some \<lparr> deletable = JBool True \<rparr>, responses = [2],
               deleted = JBool True \<rparr>,
        3 := \<lparr> command = None, responses = [2], deleted = JBool True \<rparr>)"

definition shared_cache :: cache where
  "shared_cache = [(''100'', 0), (''103'', 3)]"

text \<open>Two instances of the library's delete: one that always resolves and marks the
  message deleted, and one that rejects on a given message.\<close>

definition delete_marking :: "string delete" where
  "delete_marking r s = Inr (s(r := (s r)\<lparr>deleted := JBool True\<rparr>))"

definition delete_failing_on :: "ref \<Rightarrow> string delete" where
  "delete_failing_on bad r s =
     (if r = bad then Inl ''Unknown Message'' else delete_marking r s)"

section \<open>Properties of the Monitor class\<close>

subsection \<open>Operators\<close>

lemma truthy_js_and: "truthy (js_and a b) = (truthy a \<and> truthy b)"
  by (simp add: js_and_def)

lemma js_and_js_not: "js_and a (js_not b) = (if truthy a then JBool (\<not> truthy b) else a)"
  by (simp add: js_and_def js_not_def)

lemma isOtherAuthor_iff: "isOtherAuthor this msg = (\<not> isSelfAuthor this msg)"
  by (simp add: isOtherAuthor_def isSelfAuthor_def)

lemma slice_strip3: "slice s 0 (- 3) = take (length s - 3) s"
  by (simp add: slice_def Let_def max_def nat_diff_distrib')

text \<open>The value \<^verbatim>\<open>shouldRun\<close> returns: the falsy \<^verbatim>\<open>enabled\<close> itself when the
  monitor is not enabled, and otherwise the boolean of the four negated tests.\<close>

lemma shouldRun_value:
  "fst (shouldRun this msg) =
     (if truthy (enabled this) then
        JBool (\<not> (truthy (ignoreBots this) \<and> isBot msg)
             \<and> \<not> (truthy (ignoreSelf this) \<and> isSelfAuthor this msg)
             \<and> \<not> (truthy (ignoreOthers this) \<and> \<not> isSelfAuthor this msg)
             \<and> \<not> (truthy (ignoreWebhooks this) \<and> hasWebhookId msg))
      else enabled this)"
  by (simp add: shouldRun_def js_and_js_not truthy_js_and isBot_def hasWebhookId_def
      isOtherAuthor_iff)

lemma example_flags:
  "enabled example_monitor = JBool True" "ignoreBots example_monitor = JBool True"
  "ignoreSelf example_monitor = JBool False" "ignoreOthers example_monitor = JBool False"
  "ignoreWebhooks example_monitor = JBool True"
  by (simp_all add: example_monitor_def default_monitor_def)

lemma example_message_props:
  "\<not> isBot example_message" "\<not> hasWebhookId example_message"
  "\<not> isSelfAuthor example_monitor example_message"
  "isBot webhook_message" "hasWebhookId webhook_message"
  "\<not> isSelfAuthor example_monitor webhook_message"
  by (simp_all add: isBot_def hasWebhookId_def isSelfAuthor_def example_message_def
      webhook_message_def example_monitor_def default_monitor_def example_client_def)

lemma Monitor_new_default:
  "Monitor_new example_mergeDefault example_client ''monitors'' ''ping.js'' None
     = Inr default_monitor"
  by (simp add: Monitor_new_def example_mergeDefault_def example_client_def default_monitor_def
      getProp_def js_or_def slice_def)

subsection \<open>The filter\<close>

text \<open>
  Claim C1. For every monitor and every message, \<^verbatim>\<open>shouldRun(msg)\<close> returns
  \<^verbatim>\<open>true\<close> if and only if \<^verbatim>\<open>enabled\<close> holds and none of the four ignore tests
  fires: not (\<^verbatim>\<open>ignoreBots\<close> and the author is a bot), not (\<^verbatim>\<open>ignoreSelf\<close> and the
  author is the client's own user), not (\<^verbatim>\<open>ignoreOthers\<close> and the author is not the
  client's own user), not (\<^verbatim>\<open>ignoreWebhooks\<close> and the message has a webhook id). A flag
  holds when its value is truthy, which for a boolean flag is the flag itself; the message
  has a webhook id when \<^verbatim>\<open>msg.webhookID\<close> is truthy.
\<close>

theorem shouldRun_formula:
  "(fst (shouldRun this msg) = JBool True) =
     (truthy (enabled this)
      \<and> \<not> (truthy (ignoreBots this) \<and> isBot msg)
      \<and> \<not> (truthy (ignoreSelf this) \<and> isSelfAuthor this msg)
      \<and> \<not> (truthy (ignoreOthers this) \<and> \<not> isSelfAuthor this msg)
      \<and> \<not> (truthy (ignoreWebhooks this) \<and> hasWebhookId msg))"
  by (cases "enabled this") (simp_all add: shouldRun_value)

theorem shouldRun_formula_witness:
  "fst (shouldRun example_monitor example_message) = JBool True
   \<and> fst (shouldRun example_monitor webhook_message) \<noteq> JBool True"
  using shouldRun_formula[of example_monitor example_message]
    shouldRun_formula[of example_monitor webhook_message]
  by (simp add: example_flags example_message_props)

text \<open>
  Claim C2. A monitor whose \<^verbatim>\<open>enabled\<close> flag is \<^verbatim>\<open>false\<close> returns \<^verbatim>\<open>false\<close>
  from \<^verbatim>\<open>shouldRun\<close> for every message, whatever the ignore flags and the message are.
\<close>

theorem shouldRun_disabled:
  "enabled this = JBool False \<Longrightarrow> fst (shouldRun this msg) = JBool False"
  by (simp add: shouldRun_value)

theorem shouldRun_disabled_witness:
  "fst (shouldRun (example_monitor\<lparr>enabled := JBool False\<rparr>) example_message) = JBool False"
  by (rule shouldRun_disabled) simp

text \<open>
  Claim C10. A monitor whose \<^verbatim>\<open>ignoreSelf\<close> and \<^verbatim>\<open>ignoreOthers\<close> flags both hold (as
  under the documented defaults) never runs: the author of a message either is or is not
  the client's own user, so \<^verbatim>\<open>shouldRun\<close> returns a falsy value for every message, and
  that value is \<^verbatim>\<open>false\<close> whenever \<^verbatim>\<open>enabled\<close> is a boolean.
\<close>

theorem shouldRun_ignoreSelf_ignoreOthers:
  assumes "truthy (ignoreSelf this)" and "truthy (ignoreOthers this)"
  shows "\<not> truthy (fst (shouldRun this msg))
       \<and> (\<forall>b. enabled this = JBool b \<longrightarrow> fst (shouldRun this msg) = JBool False)"
  using assms by (auto simp: shouldRun_value)

theorem shouldRun_ignoreSelf_ignoreOthers_witness:
  "fst (shouldRun default_monitor example_message) = JBool False
   \<and> fst (shouldRun default_monitor webhook_message) = JBool False"
proof -
  have flags: "truthy (ignoreSelf default_monitor)" "truthy (ignoreOthers default_monitor)"
    and en: "enabled default_monitor = JBool True"
    by (simp_all add: default_monitor_def)
  from shouldRun_ignoreSelf_ignoreOthers[OF flags, of example_message]
    shouldRun_ignoreSelf_ignoreOthers[OF flags, of webhook_message] en
  show ?thesis by blast
qed

text \<open>
  Claim C6. \<^verbatim>\<open>shouldRun\<close> is pure. Its result depends only on the five configuration
  fields of the monitor and on four boolean properties of the message (the author is a bot,
  the author is the client's own user, the author is not the client's own user, the message
  has a webhook id): two calls that agree on these return the same value, whatever else
  differs between the monitors and the messages. And the call leaves the monitor as it was.
\<close>

theorem shouldRun_pure:
  assumes "enabled this = enabled this'"
    and "ignoreBots this = ignoreBots this'"
    and "ignoreSelf this = ignoreSelf this'"
    and "ignoreOthers this = ignoreOthers this'"
    and "ignoreWebhooks this = ignoreWebhooks this'"
    and "isBot msg = isBot msg'"
    and "isSelfAuthor this msg = isSelfAuthor this' msg'"
    and "isOtherAuthor this msg = isOtherAuthor this' msg'"
    and "hasWebhookId msg = hasWebhookId msg'"
  shows "fst (shouldRun this msg) = fst (shouldRun this' msg')
       \<and> snd (shouldRun this msg) = this"
proof
  from assms show "fst (shouldRun this msg) = fst (shouldRun this' msg')"
    by (simp add: shouldRun_value)
  show "snd (shouldRun this msg) = this"
    by (simp add: shouldRun_def)
qed

theorem shouldRun_pure_witness:
  "fst (shouldRun example_monitor example_message)
     = fst (shouldRun
         (example_monitor\<lparr> client := \<lparr> user = None, pieceDefaults_monitors = [] \<rparr>,
            dir := ''other'', file := ''log.js'', name := JStr ''log'' \<rparr>)
         \<lparr> author = \<lparr> ident = 9, bot = JUndefined \<rparr>, webhookID = JStr [] \<rparr>)
   \<and> snd (shouldRun example_monitor example_message) = example_monitor"
  by (rule shouldRun_pure)
     (simp_all add: isBot_def isSelfAuthor_def isOtherAuthor_def hasWebhookId_def
       example_message_def example_monitor_def default_monitor_def example_client_def)

subsection \<open>The hooks\<close>

text \<open>
  Claim C8. The base class's \<^verbatim>\<open>run\<close>, called with any message, does nothing: it returns
  \<^verbatim>\<open>undefined\<close> and leaves the monitor unchanged. The default \<^verbatim>\<open>init\<close> likewise.
\<close>

theorem run_init_noop:
  "run this msg = (JUndefined, this) \<and> init this = (JUndefined, this)"
  by (simp add: run_def init_def)

theorem run_init_noop_witness:
  "run default_monitor example_message = (JUndefined, default_monitor)
   \<and> init default_monitor = (JUndefined, default_monitor)"
  by (rule run_init_noop)

subsection \<open>The constructor and the serialization view\<close>

text \<open>
  Claim C9. When the merge succeeds, the constructor returns a monitor whose name is the
  merged \<^verbatim>\<open>name\<close> option if that is truthy (a non-empty string, in particular), and
  otherwise (the option is absent, or falsy as the empty string is) the \<^verbatim>\<open>file\<close>
  argument without its last three characters.
\<close>

theorem Monitor_name:
  assumes "mergeDefault (pieceDefaults_monitors c)
             (case options of None \<Rightarrow> [] | Some given \<Rightarrow> given) = Inr merged"
  shows "\<exists>m. Monitor_new mergeDefault c d f options = Inr m \<and>
             name m = (if truthy (getProp merged ''name'') then getProp merged ''name''
                       else JStr (take (length f - 3) f))"
  using assms by (simp add: Monitor_new_def js_or_def slice_strip3)

theorem Monitor_name_witness:
  "(\<exists>m. Monitor_new example_mergeDefault example_client ''monitors'' ''ping.js'' None = Inr m
        \<and> name m = JStr ''ping'')
   \<and> (\<exists>m. Monitor_new example_mergeDefault example_client ''monitors'' ''ping.js''
            (Some [(''name'', JStr [])]) = Inr m \<and> name m = JStr ''ping'')
   \<and> (\<exists>m. Monitor_new example_mergeDefault example_client ''monitors'' ''ping.js''
            (Some [(''name'', JStr ''pong'')]) = Inr m \<and> name m = JStr ''pong'')"
  using Monitor_name[of example_mergeDefault example_client None
      "pieceDefaults_monitors example_client" "''monitors''" "''ping.js''"]
    Monitor_name[of example_mergeDefault example_client "Some [(''name'', JStr [])]"
      "[(''name'', JStr [])] @ pieceDefaults_monitors example_client" "''monitors''" "''ping.js''"]
    Monitor_name[of example_mergeDefault example_client "Some [(''name'', JStr ''pong'')]"
      "[(''name'', JStr ''pong'')] @ pieceDefaults_monitors example_client" "''monitors''"
      "''ping.js''"]
  by (simp add: example_mergeDefault_def example_client_def getProp_def)

text \<open>
  Claim C5. For an instance built by the constructor, in whatever state it is when
  \<^verbatim>\<open>toJSON\<close> is called (its \<^verbatim>\<open>type\<close> field still being what the constructor stored,
  since no method of the class assigns it), \<^verbatim>\<open>toJSON\<close> returns an object with exactly the
  nine fields dir, file, name, type, enabled, ignoreBots, ignoreSelf, ignoreOthers and
  ignoreWebhooks, where type is \<^verbatim>\<open>"monitor"\<close> and every other field has the value the
  instance holds at that time.
\<close>

theorem toJSON_fields:
  assumes "Monitor_new mergeDefault c d f options = Inr m" and "type this = type m"
  shows "map fst (toJSON this) =
           [''dir'', ''file'', ''name'', ''type'', ''enabled'', ''ignoreBots'', ''ignoreSelf'',
            ''ignoreOthers'', ''ignoreWebhooks'']
       \<and> map snd (toJSON this) =
           [JStr (dir this), JStr (file this), name this, JStr ''monitor'', enabled this,
            ignoreBots this, ignoreSelf this, ignoreOthers this, ignoreWebhooks this]"
  using assms by (auto simp: Monitor_new_def toJSON_def split: sum.splits)

theorem toJSON_fields_witness:
  "map fst (toJSON (default_monitor\<lparr>enabled := JBool False\<rparr>)) =
     [''dir'', ''file'', ''name'', ''type'', ''enabled'', ''ignoreBots'', ''ignoreSelf'',
      ''ignoreOthers'', ''ignoreWebhooks'']
   \<and> map snd (toJSON (default_monitor\<lparr>enabled := JBool False\<rparr>)) =
     [JStr ''monitors'', JStr ''ping.js'', JStr ''ping'', JStr ''monitor'', JBool False,
      JBool True, JBool True, JBool True, JUndefined]"
  using toJSON_fields[OF Monitor_new_default, of "default_monitor\<lparr>enabled := JBool False\<rparr>"]
  by (simp add: default_monitor_def)

section \<open>Properties of the bulk-delete handler\<close>

subsection \<open>Reading traces\<close>

lemma requested_append: "requested (evs @ evs') = requested evs @ requested evs'"
  by (induction evs rule: requested.induct) simp_all

lemma requested_for_append:
  "requested_for m (evs @ evs') = requested_for m evs @ requested_for m evs'"
  by (induction m evs rule: requested_for.induct) simp_all

subsection \<open>What a resolved delete leaves alone\<close>

lemma unchanged_outside_refl: "unchanged_outside R s s"
  by (simp add: unchanged_outside_def)

lemma unchanged_outside_trans:
  "unchanged_outside R s s' \<Longrightarrow> unchanged_outside R' s' s'' \<Longrightarrow>
     unchanged_outside (R \<union> R') s s''"
  by (simp add: unchanged_outside_def)

lemma unchanged_outside_deletable:
  "unchanged_outside R s s' \<Longrightarrow> command_deletable (s' x) = command_deletable (s x)"
  by (simp add: unchanged_outside_def command_deletable_def)

lemma unchanged_outside_responses:
  "unchanged_outside R s s' \<Longrightarrow> responses (s' x) = responses (s x)"
  by (simp add: unchanged_outside_def)

lemma marks_only_step:
  assumes "marks_only del" and "del r s = Inr s'"
  shows "unchanged_outside {r} s s'"
proof -
  from assms obtain d where "s' = s(r := (s r)\<lparr>deleted := d\<rparr>)"
    unfolding marks_only_def by blast
  then show ?thesis by (simp add: unchanged_outside_def)
qed

lemma marks_only_delete_marking: "marks_only delete_marking"
  by (auto simp: marks_only_def delete_marking_def)

subsection \<open>The inner loop\<close>

text \<open>Every call the inner loop makes is made for the source message it was given.\<close>

lemma delete_responses_sources:
  "delete_responses del message rs s = (evs, out) \<Longrightarrow>
     requested_for m evs = (if m = message then requested evs else [])"
  by (induction rs arbitrary: s evs out) (auto split: sum.splits prod.splits if_splits)

text \<open>It calls delete only on responses of the list that were not marked deleted when
  the loop started.\<close>

lemma delete_responses_requested:
  "marks_only del \<Longrightarrow> delete_responses del message rs s = (evs, out) \<Longrightarrow>
     set (requested evs) \<subseteq> {r \<in> set rs. \<not> truthy (deleted (s r))}"
proof (induction rs arbitrary: s evs out)
  case Nil
  then show ?case by simp
next
  case (Cons r rest)
  show ?case
  proof (cases "truthy (deleted (s r))")
    case True
    with Cons show ?thesis by auto
  next
    case notdel: False
    show ?thesis
    proof (cases "del r s")
      case (Inl e)
      with notdel Cons.prems show ?thesis by auto
    next
      case (Inr s1)
      obtain evs1 out1 where rec: "delete_responses del message rest s1 = (evs1, out1)"
        by (cases "delete_responses del message rest s1")
      from Cons.IH[OF Cons.prems(1) rec]
      have ih: "set (requested evs1) \<subseteq> {x \<in> set rest. \<not> truthy (deleted (s1 x))}" .
      from marks_only_step[OF Cons.prems(1) Inr]
      have fr: "\<And>x. x \<noteq> r \<Longrightarrow> deleted (s1 x) = deleted (s x)"
        by (simp add: unchanged_outside_def)
      from Cons.prems(2) notdel Inr rec
      have evs: "evs = DeleteCall message r # DeleteResolved message r # evs1" by simp
      show ?thesis
      proof
        fix x assume "x \<in> set (requested evs)"
        then have "x = r \<or> x \<in> set (requested evs1)" by (simp add: evs)
        then show "x \<in> {y \<in> set (r # rest). \<not> truthy (deleted (s y))}"
          using ih notdel fr by (cases "x = r") auto
      qed
    qed
  qed
qed

text \<open>When no call is rejected, it calls delete on every such response, and the store it
  leaves differs from the one it started with only in the marks of those responses.\<close>

lemma delete_responses_resolved:
  "marks_only del \<Longrightarrow> delete_responses del message rs s = (evs, Inr s') \<Longrightarrow>
     {r \<in> set rs. \<not> truthy (deleted (s r))} \<subseteq> set (requested evs)
     \<and> unchanged_outside (set (requested evs)) s s'"
proof (induction rs arbitrary: s evs)
  case Nil
  then show ?case by (simp add: unchanged_outside_refl)
next
  case (Cons r rest)
  show ?case
  proof (cases "truthy (deleted (s r))")
    case True
    with Cons show ?thesis by auto
  next
    case notdel: False
    show ?thesis
    proof (cases "del r s")
      case (Inl e)
      with notdel Cons.prems show ?thesis by auto
    next
      case (Inr s1)
      obtain evs1 out1 where rec: "delete_responses del message rest s1 = (evs1, out1)"
        by (cases "delete_responses del message rest s1")
      from Cons.prems(2) notdel Inr rec
      have evs: "evs = DeleteCall message r # DeleteResolved message r # evs1"
        and out1: "out1 = Inr s'" by simp_all
      from Cons.IH[OF Cons.prems(1) rec[unfolded out1]]
      have ih: "{x \<in> set rest. \<not> truthy (deleted (s1 x))} \<subseteq> set (requested evs1)"
        and fr1: "unchanged_outside (set (requested evs1)) s1 s'" by simp_all
      have fr0: "unchanged_outside {r} s s1"
        by (rule marks_only_step[OF Cons.prems(1) Inr])
      have "unchanged_outside ({r} \<union> set (requested evs1)) s s'"
        by (rule unchanged_outside_trans[OF fr0 fr1])
      then have fr: "unchanged_outside (set (requested evs)) s s'"
        by (simp add: evs)
      have "{x \<in> set (r # rest). \<not> truthy (deleted (s x))} \<subseteq> set (requested evs)"
      proof
        fix x assume x: "x \<in> {x \<in> set (r # rest). \<not> truthy (deleted (s x))}"
        show "x \<in> set (requested evs)"
        proof (cases "x = r")
          case True
          then show ?thesis by (simp add: evs)
        next
          case False
          with x fr0 have "x \<in> set rest" "\<not> truthy (deleted (s1 x))"
            by (auto simp: unchanged_outside_def)
          with ih show ?thesis by (auto simp: evs)
        qed
      qed
      with fr show ?thesis by simp
    qed
  qed
qed

text \<open>Calls come in the order of the list, and each is settled before the next; after a
  loop that was not rejected, whatever follows starts with no call pending.\<close>

lemma delete_responses_subseq:
  "delete_responses del message rs s = (evs, out) \<Longrightarrow> subseq (requested evs) rs"
  by (induction rs arbitrary: s evs out)
     (auto split: sum.splits prod.splits if_splits intro: subseq_Cons')

lemma delete_responses_one_at_a_time:
  "delete_responses del message rs s = (evs, out) \<Longrightarrow>
     one_at_a_time evs \<and>
     (\<forall>s'. out = Inr s' \<longrightarrow> (\<forall>evs'. one_at_a_time (evs @ evs') = one_at_a_time evs'))"
  by (induction rs arbitrary: s evs out)
     (auto split: sum.splits prod.splits if_splits)

subsection \<open>The outer loop\<close>

text \<open>A delete is called only on a response that was not marked deleted when the handler
  started, and that is listed under a message of the mapping whose command is deletable.\<close>

lemma run_messages_requested:
  "marks_only del \<Longrightarrow> run_messages del ms s = (evs, out) \<Longrightarrow>
     set (requested evs) \<subseteq>
       {r. \<not> truthy (deleted (s r)) \<and>
           (\<exists>m \<in> set ms. command_deletable (s m) \<and> r \<in> set (responses (s m)))}"
proof (induction ms arbitrary: s evs out)
  case Nil
  then show ?case by simp
next
  case (Cons m rest)
  show ?case
  proof (cases "command_deletable (s m)")
    case False
    with Cons.prems(2) have "run_messages del rest s = (evs, out)" by simp
    from Cons.IH[OF Cons.prems(1) this] show ?thesis by auto
  next
    case True
    obtain evs1 out1 where inner: "delete_responses del m (responses (s m)) s = (evs1, out1)"
      by (cases "delete_responses del m (responses (s m)) s")
    from delete_responses_requested[OF Cons.prems(1) inner] True
    have req1: "set (requested evs1) \<subseteq>
        {r. \<not> truthy (deleted (s r)) \<and>
            (\<exists>m' \<in> set (m # rest). command_deletable (s m') \<and> r \<in> set (responses (s m')))}"
      by auto
    show ?thesis
    proof (cases out1)
      case (Inl e)
      with Cons.prems(2) True inner have "evs = evs1" by simp
      with req1 show ?thesis by simp
    next
      case (Inr s1)
      obtain evs2 out2 where outer: "run_messages del rest s1 = (evs2, out2)"
        by (cases "run_messages del rest s1")
      from Cons.prems(2) True inner Inr outer have evs: "evs = evs1 @ evs2" by simp
      from Cons.IH[OF Cons.prems(1) outer]
      have req2: "set (requested evs2) \<subseteq>
          {r. \<not> truthy (deleted (s1 r)) \<and>
              (\<exists>m' \<in> set rest. command_deletable (s1 m') \<and> r \<in> set (responses (s1 m')))}" .
      from delete_responses_resolved[OF Cons.prems(1) inner[unfolded Inr]]
      have fr: "unchanged_outside (set (requested evs1)) s s1" by simp
      have "set (requested evs2) \<subseteq>
          {r. \<not> truthy (deleted (s r)) \<and>
              (\<exists>m' \<in> set (m # rest). command_deletable (s m') \<and> r \<in> set (responses (s m')))}"
      proof
        fix x assume x: "x \<in> set (requested evs2)"
        with req2 obtain m' where m': "m' \<in> set rest" "command_deletable (s1 m')"
            "x \<in> set (responses (s1 m'))" and nd1: "\<not> truthy (deleted (s1 x))"
          by blast
        from m' fr have src: "m' \<in> set (m # rest)" "command_deletable (s m')"
            "x \<in> set (responses (s m'))"
          by (simp_all add: unchanged_outside_deletable unchanged_outside_responses)
        have "\<not> truthy (deleted (s x))"
        proof (cases "x \<in> set (requested evs1)")
          case True
          with req1 show ?thesis by blast
        next
          case False
          with fr have "deleted (s1 x) = deleted (s x)" by (simp add: unchanged_outside_def)
          with nd1 show ?thesis by simp
        qed
        with src show "x \<in> {r. \<not> truthy (deleted (s r)) \<and>
              (\<exists>m' \<in> set (m # rest). command_deletable (s m') \<and> r \<in> set (responses (s m')))}"
          by blast
      qed
      with req1 show ?thesis by (simp add: evs requested_append)
    qed
  qed
qed

text \<open>When no call is rejected, every response that was not marked deleted and is listed
  under a message with a deletable command gets its call.\<close>

lemma run_messages_resolved:
  "marks_only del \<Longrightarrow> run_messages del ms s = (evs, Inr s') \<Longrightarrow>
     (\<forall>m \<in> set ms. command_deletable (s m) \<longrightarrow>
        {r \<in> set (responses (s m)). \<not> truthy (deleted (s r))} \<subseteq> set (requested evs))
     \<and> unchanged_outside (set (requested evs)) s s'"
proof (induction ms arbitrary: s evs)
  case Nil
  then show ?case by (simp add: unchanged_outside_refl)
next
  case (Cons m rest)
  show ?case
  proof (cases "command_deletable (s m)")
    case False
    with Cons.prems(2) have "run_messages del rest s = (evs, Inr s')" by simp
    from Cons.IH[OF Cons.prems(1) this] False show ?thesis by auto
  next
    case True
    obtain evs1 out1 where inner: "delete_responses del m (responses (s m)) s = (evs1, out1)"
      by (cases "delete_responses del m (responses (s m)) s")
    from Cons.prems(2) True inner obtain s1 where out1: "out1 = Inr s1"
      by (cases out1) auto
    obtain evs2 out2 where outer: "run_messages del rest s1 = (evs2, out2)"
      by (cases "run_messages del rest s1")
    from Cons.prems(2) True inner out1 outer
    have evs: "evs = evs1 @ evs2" and out2: "out2 = Inr s'" by simp_all
    from delete_responses_resolved[OF Cons.prems(1) inner[unfolded out1]]
    have cov1: "{r \<in> set (responses (s m)). \<not> truthy (deleted (s r))} \<subseteq> set (requested evs1)"
      and fr1: "unchanged_outside (set (requested evs1)) s s1" by simp_all
    from Cons.IH[OF Cons.prems(1) outer[unfolded out2]]
    have cov2: "\<And>m'. m' \<in> set rest \<Longrightarrow> command_deletable (s1 m') \<Longrightarrow>
        {r \<in> set (responses (s1 m')). \<not> truthy (deleted (s1 r))} \<subseteq> set (requested evs2)"
      and fr2: "unchanged_outside (set (requested evs2)) s1 s'" by simp_all
    have fr: "unchanged_outside (set (requested evs)) s s'"
      using unchanged_outside_trans[OF fr1 fr2] by (simp add: evs requested_append)
    have "{r \<in> set (responses (s m')). \<not> truthy (deleted (s r))} \<subseteq> set (requested evs)"
      if m': "m' \<in> set (m # rest)" and del': "command_deletable (s m')" for m'
    proof
      fix r assume r: "r \<in> {r \<in> set (responses (s m')). \<not> truthy (deleted (s r))}"
      show "r \<in> set (requested evs)"
      proof (cases "r \<in> set (requested evs1)")
        case True
        then show ?thesis by (simp add: evs requested_append)
      next
        case notreq: False
        with cov1 r have "m' \<noteq> m" by auto
        with m' have in_rest: "m' \<in> set rest" by simp
        from fr1 del' have d1: "command_deletable (s1 m')"
          by (simp add: unchanged_outside_deletable)
        from fr1 notreq r have "r \<in> set (responses (s1 m'))" "\<not> truthy (deleted (s1 r))"
          by (auto simp: unchanged_outside_def)
        with cov2[OF in_rest d1] show ?thesis by (auto simp: evs requested_append)
      qed
    qed
    with fr show ?thesis by blast
  qed
qed

text \<open>While a message whose command is missing or not deletable is processed, no call is
  made.\<close>

lemma run_messages_not_deletable:
  "marks_only del \<Longrightarrow> \<not> command_deletable (s m) \<Longrightarrow> run_messages del ms s = (evs, out) \<Longrightarrow>
     requested_for m evs = []"
proof (induction ms arbitrary: s evs out)
  case Nil
  then show ?case by simp
next
  case (Cons m' rest)
  show ?case
  proof (cases "command_deletable (s m')")
    case False
    with Cons show ?thesis by simp
  next
    case True
    with Cons.prems(2) have neq: "m \<noteq> m'" by auto
    obtain evs1 out1 where inner: "delete_responses del m' (responses (s m')) s = (evs1, out1)"
      by (cases "delete_responses del m' (responses (s m')) s")
    from delete_responses_sources[OF inner, of m] neq
    have none1: "requested_for m evs1 = []" by simp
    show ?thesis
    proof (cases out1)
      case (Inl e)
      with Cons.prems(3) True inner have "evs = evs1" by simp
      with none1 show ?thesis by simp
    next
      case (Inr s1)
      obtain evs2 out2 where outer: "run_messages del rest s1 = (evs2, out2)"
        by (cases "run_messages del rest s1")
      from Cons.prems(3) True inner Inr outer have evs: "evs = evs1 @ evs2" by simp
      from delete_responses_resolved[OF Cons.prems(1) inner[unfolded Inr]]
      have "unchanged_outside (set (requested evs1)) s s1" by simp
      with Cons.prems(2) have "\<not> command_deletable (s1 m)"
        by (simp add: unchanged_outside_deletable)
      from Cons.IH[OF Cons.prems(1) this outer] none1
      show ?thesis by (simp add: evs requested_for_append)
    qed
  qed
qed

lemma run_messages_one_at_a_time:
  "run_messages del ms s = (evs, out) \<Longrightarrow> one_at_a_time evs"
proof (induction ms arbitrary: s evs out)
  case Nil
  then show ?case by simp
next
  case (Cons m rest)
  show ?case
  proof (cases "command_deletable (s m)")
    case False
    with Cons show ?thesis by simp
  next
    case True
    obtain evs1 out1 where inner: "delete_responses del m (responses (s m)) s = (evs1, out1)"
      by (cases "delete_responses del m (responses (s m)) s")
    note one = delete_responses_one_at_a_time[OF inner]
    show ?thesis
    proof (cases out1)
      case (Inl e)
      with Cons.prems True inner have "evs = evs1" by simp
      with one show ?thesis by simp
    next
      case (Inr s1)
      obtain evs2 out2 where outer: "run_messages del rest s1 = (evs2, out2)"
        by (cases "run_messages del rest s1")
      from Cons.prems True inner Inr outer have evs: "evs = evs1 @ evs2" by simp
      from Cons.IH[OF outer] one Inr show ?thesis by (simp add: evs)
    qed
  qed
qed

subsection \<open>Order and exact list of the calls\<close>

text \<open>The calls made on behalf of one source message follow its responses collection,
  once for each time the mapping holds that message.\<close>

lemma run_messages_order:
  "marks_only del \<Longrightarrow> run_messages del ms s = (evs, out) \<Longrightarrow>
     subseq (requested_for m evs)
       (concat (map (\<lambda>m'. responses (s m')) (filter (\<lambda>m'. m' = m) ms)))"
proof (induction ms arbitrary: s evs out)
  case Nil
  then show ?case by simp
next
  case (Cons m' rest)
  let ?later = "concat (map (\<lambda>x. responses (s x)) (filter (\<lambda>x. x = m) rest))"
  show ?case
  proof (cases "command_deletable (s m')")
    case False
    with Cons.prems(2) have "run_messages del rest s = (evs, out)" by simp
    from Cons.IH[OF Cons.prems(1) this] have "subseq (requested_for m evs) ?later" .
    then show ?thesis by (auto intro: list_emb_append2)
  next
    case True
    obtain evs1 out1 where inner: "delete_responses del m' (responses (s m')) s = (evs1, out1)"
      by (cases "delete_responses del m' (responses (s m')) s")
    have own: "requested_for m evs1 = (if m = m' then requested evs1 else [])"
      by (rule delete_responses_sources[OF inner])
    have sub1: "subseq (requested evs1) (responses (s m'))"
      by (rule delete_responses_subseq[OF inner])
    have first: "subseq (requested_for m evs1) (if m' = m then responses (s m') else [])"
      using own sub1 by auto
    show ?thesis
    proof (cases out1)
      case (Inl e)
      with Cons.prems(2) True inner have "evs = evs1" by simp
      from first have "subseq (requested_for m evs1)
          ((if m' = m then responses (s m') else []) @ ?later)"
        by (rule list_emb_prefix)
      then show ?thesis by (auto simp: \<open>evs = evs1\<close>)
    next
      case (Inr s1)
      obtain evs2 out2 where outer: "run_messages del rest s1 = (evs2, out2)"
        by (cases "run_messages del rest s1")
      from Cons.prems(2) True inner Inr outer have evs: "evs = evs1 @ evs2" by simp
      from delete_responses_resolved[OF Cons.prems(1) inner[unfolded Inr]]
      have "unchanged_outside (set (requested evs1)) s s1" by simp
      then have same: "\<And>x. responses (s1 x) = responses (s x)"
        by (simp add: unchanged_outside_def)
      from Cons.IH[OF Cons.prems(1) outer] have "subseq (requested_for m evs2) ?later"
        by (simp add: same)
      with first have "subseq (requested_for m evs1 @ requested_for m evs2)
          ((if m' = m then responses (s m') else []) @ ?later)"
        by (rule list_emb_append_mono)
      then show ?thesis by (auto simp: evs requested_for_append)
    qed
  qed
qed

text \<open>When no call is rejected and the list has no response twice, the inner loop calls
  delete on exactly the responses not yet marked deleted, in the order of the list.\<close>

lemma delete_responses_exact:
  "marks_only del \<Longrightarrow> distinct rs \<Longrightarrow> delete_responses del message rs s = (evs, Inr s') \<Longrightarrow>
     requested evs = filter (\<lambda>r. \<not> truthy (deleted (s r))) rs"
proof (induction rs arbitrary: s evs)
  case Nil
  then show ?case by simp
next
  case (Cons r rest)
  from Cons.prems(2) have dist: "distinct rest" and fresh: "r \<notin> set rest" by simp_all
  show ?case
  proof (cases "truthy (deleted (s r))")
    case True
    with Cons.prems(3) have "delete_responses del message rest s = (evs, Inr s')" by simp
    from Cons.IH[OF Cons.prems(1) dist this] True show ?thesis by simp
  next
    case notdel: False
    show ?thesis
    proof (cases "del r s")
      case (Inl e)
      with notdel Cons.prems(3) show ?thesis by simp
    next
      case (Inr s1)
      obtain evs1 out1 where rec: "delete_responses del message rest s1 = (evs1, out1)"
        by (cases "delete_responses del message rest s1")
      from Cons.prems(3) notdel Inr rec
      have evs: "evs = DeleteCall message r # DeleteResolved message r # evs1"
        and out1: "out1 = Inr s'" by simp_all
      from Cons.IH[OF Cons.prems(1) dist rec[unfolded out1]]
      have ih: "requested evs1 = filter (\<lambda>x. \<not> truthy (deleted (s1 x))) rest" .
      from marks_only_step[OF Cons.prems(1) Inr]
      have fr: "\<And>x. x \<noteq> r \<Longrightarrow> deleted (s1 x) = deleted (s x)"
        by (simp add: unchanged_outside_def)
      have "filter (\<lambda>x. \<not> truthy (deleted (s1 x))) rest
          = filter (\<lambda>x. \<not> truthy (deleted (s x))) rest"
      proof (rule filter_cong[OF refl])
        fix x assume "x \<in> set rest"
        with fresh have "x \<noteq> r" by auto
        then show "(\<not> truthy (deleted (s1 x))) = (\<not> truthy (deleted (s x)))"
          by (simp add: fr)
      qed
      with ih notdel show ?thesis by (simp add: evs)
    qed
  qed
qed

text \<open>The same for the whole handler: when no call is rejected and no response is recorded
  twice under the messages with a deletable command, the calls are, message after message
  in the order of the mapping, the responses not yet marked deleted in the order of each
  collection.\<close>

lemma run_messages_exact:
  "marks_only del \<Longrightarrow> run_messages del ms s = (evs, Inr s') \<Longrightarrow>
   distinct (concat (map (\<lambda>m. responses (s m)) (filter (\<lambda>m. command_deletable (s m)) ms))) \<Longrightarrow>
     requested evs =
       concat (map (\<lambda>m. filter (\<lambda>r. \<not> truthy (deleted (s r))) (responses (s m)))
                 (filter (\<lambda>m. command_deletable (s m)) ms))"
proof (induction ms arbitrary: s evs)
  case Nil
  then show ?case by simp
next
  case (Cons m rest)
  show ?case
  proof (cases "command_deletable (s m)")
    case False
    with Cons.prems(2) have run: "run_messages del rest s = (evs, Inr s')" by simp
    from Cons.prems(3) False
    have "distinct (concat (map (\<lambda>m. responses (s m))
        (filter (\<lambda>m. command_deletable (s m)) rest)))" by simp
    from Cons.IH[OF Cons.prems(1) run this] False show ?thesis by simp
  next
    case True
    let ?rest = "filter (\<lambda>x. command_deletable (s x)) rest"
    from Cons.prems(3) True
    have d1: "distinct (responses (s m))"
      and d2: "distinct (concat (map (\<lambda>x. responses (s x)) ?rest))"
      and apart: "set (responses (s m)) \<inter> set (concat (map (\<lambda>x. responses (s x)) ?rest)) = {}"
      by simp_all
    obtain evs1 out1 where inner: "delete_responses del m (responses (s m)) s = (evs1, out1)"
      by (cases "delete_responses del m (responses (s m)) s")
    from Cons.prems(2) True inner obtain s1 where out1: "out1 = Inr s1"
      by (cases out1) auto
    obtain evs2 out2 where outer: "run_messages del rest s1 = (evs2, out2)"
      by (cases "run_messages del rest s1")
    from Cons.prems(2) True inner out1 outer
    have evs: "evs = evs1 @ evs2" and out2: "out2 = Inr s'" by simp_all
    have req1: "requested evs1 = filter (\<lambda>r. \<not> truthy (deleted (s r))) (responses (s m))"
      by (rule delete_responses_exact[OF Cons.prems(1) d1 inner[unfolded out1]])
    from delete_responses_resolved[OF Cons.prems(1) inner[unfolded out1]]
    have fr: "unchanged_outside (set (requested evs1)) s s1" by simp
    then have same_r: "\<And>x. responses (s1 x) = responses (s x)"
      and same_c: "\<And>x. command_deletable (s1 x) = command_deletable (s x)"
      by (simp_all add: unchanged_outside_def command_deletable_def)
    from d2 have "distinct (concat (map (\<lambda>x. responses (s1 x))
        (filter (\<lambda>x. command_deletable (s1 x)) rest)))"
      by (simp add: same_r same_c)
    from Cons.IH[OF Cons.prems(1) outer[unfolded out2] this]
    have req2: "requested evs2 =
        concat (map (\<lambda>x. filter (\<lambda>r. \<not> truthy (deleted (s1 r))) (responses (s x))) ?rest)"
      by (simp add: same_r same_c)
    have "map (\<lambda>x. filter (\<lambda>r. \<not> truthy (deleted (s1 r))) (responses (s x))) ?rest
        = map (\<lambda>x. filter (\<lambda>r. \<not> truthy (deleted (s r))) (responses (s x))) ?rest"
    proof (rule map_cong[OF refl], rule filter_cong[OF refl])
      fix x r assume x: "x \<in> set ?rest" and r: "r \<in> set (responses (s x))"
      with apart have "r \<notin> set (responses (s m))" by auto
      with req1 have "r \<notin> set (requested evs1)" by simp
      with fr have "deleted (s1 r) = deleted (s r)" by (simp add: unchanged_outside_def)
      then show "(\<not> truthy (deleted (s1 r))) = (\<not> truthy (deleted (s r)))" by simp
    qed
    with req1 req2 True show ?thesis by (simp add: evs requested_append)
  qed
qed

subsection \<open>The handler on the example store\<close>

lemma example_trace:
  "fst (coreMessageDeleteBulk_run delete_marking example_cache example_store)
     = [DeleteCall 0 2, DeleteResolved 0 2]"
  by (simp add: coreMessageDeleteBulk_run_def values_of_def example_cache_def example_store_def
      delete_marking_def blank_message_def command_deletable_def)

lemma example_outcome:
  "\<not> isl (snd (coreMessageDeleteBulk_run delete_marking example_cache example_store))"
  by (simp add: coreMessageDeleteBulk_run_def values_of_def example_cache_def example_store_def
      delete_marking_def blank_message_def command_deletable_def)

subsection \<open>Which responses are deleted\<close>

text \<open>
  Claim C3 as stated fails when a delete is rejected. The rejection is not caught: it ends
  the handler, and the responses after it get no delete call. Below, message 7 of the
  example store has a deletable command and two responses, neither marked deleted, and the
  library refuses to delete the first.
\<close>

theorem bulk_delete_rejected_counterexample:
  "(''107'', 7) \<in> set [(''107'', 7)]
   \<and> command (example_store 7) = Some \<lparr> deletable = JBool True \<rparr>
   \<and> responses (example_store 7) = [8, 9]
   \<and> \<not> truthy (deleted (example_store 8)) \<and> \<not> truthy (deleted (example_store 9))
   \<and> coreMessageDeleteBulk_run (delete_failing_on 8) [(''107'', 7)] example_store
        = ([DeleteCall 7 8, DeleteRejected 7 8], Inl ''Unknown Message'')
   \<and> 9 \<notin> set (requested
        (fst (coreMessageDeleteBulk_run (delete_failing_on 8) [(''107'', 7)] example_store)))"
  by (simp add: coreMessageDeleteBulk_run_def values_of_def example_store_def
      delete_failing_on_def delete_marking_def blank_message_def command_deletable_def)

text \<open>
  Claim C3, as the code has it. Let the library's delete change nothing but the deleted mark
  of the message it is called on. For every message of the mapping whose command exists and
  is marked deletable, and every response recorded for it: a delete call is made on the
  response only if it was not already marked deleted; and if no delete call of the run is
  rejected, a delete call is made on it if and only if it was not already marked deleted. In
  particular, for a message with two responses of which one is already deleted, exactly one
  call is made, on the other one (message 0 of the example store, in the theorem after
  this one).
\<close>

theorem bulk_delete_requests:
  assumes "marks_only del"
    and "m \<in> set (values_of messages)"
    and "command (s m) = Some c" and "truthy (deletable c)"
    and "r \<in> set (responses (s m))"
  shows "(r \<in> set (requested (fst (coreMessageDeleteBulk_run del messages s)))
           \<longrightarrow> \<not> truthy (deleted (s r)))
       \<and> (\<not> isl (snd (coreMessageDeleteBulk_run del messages s))
           \<longrightarrow> (r \<in> set (requested (fst (coreMessageDeleteBulk_run del messages s))))
                = (\<not> truthy (deleted (s r))))"
proof -
  obtain evs out where run: "run_messages del (values_of messages) s = (evs, out)"
    by (cases "run_messages del (values_of messages) s")
  from assms(3,4) have cd: "command_deletable (s m)"
    by (simp add: command_deletable_def)
  have a: "r \<in> set (requested evs) \<longrightarrow> \<not> truthy (deleted (s r))"
    using run_messages_requested[OF assms(1) run] by blast
  have b: "\<not> truthy (deleted (s r)) \<longrightarrow> r \<in> set (requested evs)" if "\<not> isl out"
  proof -
    from that obtain s' where "out = Inr s'" by (cases out) auto
    from run_messages_resolved[OF assms(1) run[unfolded this]] assms(2,5) cd
    show ?thesis by blast
  qed
  from a b show ?thesis by (auto simp: coreMessageDeleteBulk_run_def run)
qed

theorem bulk_delete_requests_witness:
  "2 \<in> set (requested (fst (coreMessageDeleteBulk_run delete_marking example_cache example_store)))
   \<and> 1 \<notin> set (requested (fst (coreMessageDeleteBulk_run delete_marking example_cache example_store)))
   \<and> fst (coreMessageDeleteBulk_run delete_marking example_cache example_store)
       = [DeleteCall 0 2, DeleteResolved 0 2]"
proof -
  have m: "0 \<in> set (values_of example_cache)"
    by (simp add: values_of_def example_cache_def)
  have c: "command (example_store 0) = Some \<lparr> deletable = JBool True \<rparr>"
    and t: "truthy (deletable \<lparr> deletable = JBool True \<rparr>)"
    by (simp_all add: example_store_def)
  have r2: "2 \<in> set (responses (example_store 0))"
    and r1: "1 \<in> set (responses (example_store 0))"
    by (simp_all add: example_store_def)
  have d2: "\<not> truthy (deleted (example_store 2))" and d1: "truthy (deleted (example_store 1))"
    by (simp_all add: example_store_def blank_message_def)
  from bulk_delete_requests[of delete_marking 0 example_cache example_store _ 2,
      OF marks_only_delete_marking m c t r2] example_outcome d2
  have "2 \<in> set (requested
      (fst (coreMessageDeleteBulk_run delete_marking example_cache example_store)))"
    by blast
  moreover
  from bulk_delete_requests[of delete_marking 0 example_cache example_store _ 1,
      OF marks_only_delete_marking m c t r1] d1
  have "1 \<notin> set (requested
      (fst (coreMessageDeleteBulk_run delete_marking example_cache example_store)))"
    by blast
  ultimately show ?thesis using example_trace by blast
qed

text \<open>
  Claim C4 as stated fails when a response is recorded for two messages: in the store
  below response 2 belongs both to message 0, whose command is deletable, and to message 3,
  which has no command, and a delete call is made on it.
\<close>

theorem bulk_delete_shared_response_counterexample:
  "values_of shared_cache = [0, 3]
   \<and> command (shared_store 3) = None
   \<and> responses (shared_store 3) = [2]
   \<and> coreMessageDeleteBulk_run delete_marking shared_cache shared_store
        = ([DeleteCall 0 2, DeleteResolved 0 2],
           Inr (shared_store(2 := (shared_store 2)\<lparr>deleted := JBool True\<rparr>)))
   \<and> 2 \<in> set (requested
        (fst (coreMessageDeleteBulk_run delete_marking shared_cache shared_store)))"
  by (simp add: coreMessageDeleteBulk_run_def values_of_def shared_cache_def shared_store_def
      delete_marking_def blank_message_def command_deletable_def)

text \<open>
  Claim C4, as the code has it. Let the library's delete change nothing but the deleted mark
  of the message it is called on. For a message that has no command, or whose command is
  not marked deletable, the handler makes no delete call while processing it, whatever the
  mapping is; and none of its responses gets a delete call at all, except a response that
  is also recorded for a message of the mapping whose command exists and is marked
  deletable.
\<close>

theorem bulk_delete_not_deletable:
  assumes "marks_only del"
    and "command (s m) = None \<or> (\<exists>c. command (s m) = Some c \<and> \<not> truthy (deletable c))"
  shows "requested_for m (fst (coreMessageDeleteBulk_run del messages s)) = []
       \<and> (\<forall>r \<in> set (responses (s m)).
            (\<forall>m' \<in> set (values_of messages).
                command_deletable (s m') \<longrightarrow> r \<notin> set (responses (s m')))
            \<longrightarrow> r \<notin> set (requested (fst (coreMessageDeleteBulk_run del messages s))))"
proof -
  obtain evs out where run: "run_messages del (values_of messages) s = (evs, out)"
    by (cases "run_messages del (values_of messages) s")
  from assms(2) have nd: "\<not> command_deletable (s m)"
    by (auto simp: command_deletable_def)
  have "requested_for m evs = []"
    by (rule run_messages_not_deletable[OF assms(1) nd run])
  moreover have "\<forall>r \<in> set (requested evs).
      \<exists>m' \<in> set (values_of messages). command_deletable (s m') \<and> r \<in> set (responses (s m'))"
    using run_messages_requested[OF assms(1) run] by blast
  ultimately show ?thesis
    by (simp add: coreMessageDeleteBulk_run_def run) blast
qed

theorem bulk_delete_not_deletable_witness:
  "requested_for 3 (fst (coreMessageDeleteBulk_run delete_marking example_cache example_store)) = []
   \<and> requested_for 5 (fst (coreMessageDeleteBulk_run delete_marking example_cache example_store)) = []
   \<and> 4 \<notin> set (requested (fst (coreMessageDeleteBulk_run delete_marking example_cache example_store)))
   \<and> 6 \<notin> set (requested (fst (coreMessageDeleteBulk_run delete_marking example_cache example_store)))"
proof -
  have n3: "command (example_store 3) = None \<or>
      (\<exists>c. command (example_store 3) = Some c \<and> \<not> truthy (deletable c))"
    and n5: "command (example_store 5) = None \<or>
      (\<exists>c. command (example_store 5) = Some c \<and> \<not> truthy (deletable c))"
    by (simp_all add: example_store_def)
  have r4: "4 \<in> set (responses (example_store 3))"
    and r6: "6 \<in> set (responses (example_store 5))"
    by (simp_all add: example_store_def)
  have alone: "\<forall>m' \<in> set (values_of example_cache). command_deletable (example_store m')
      \<longrightarrow> 4 \<notin> set (responses (example_store m')) \<and> 6 \<notin> set (responses (example_store m'))"
    by (simp add: values_of_def example_cache_def example_store_def command_deletable_def)
  from bulk_delete_not_deletable[of delete_marking example_store 3 example_cache,
      OF marks_only_delete_marking n3]
    bulk_delete_not_deletable[of delete_marking example_store 5 example_cache,
      OF marks_only_delete_marking n5]
    r4 r6 alone
  show ?thesis by blast
qed

subsection \<open>The order of the delete calls\<close>

text \<open>
  Claim C7. Let the library's delete change nothing but the deleted mark of the message it
  is called on (so that it leaves the responses collections alone). In the trace of the
  handler every delete call is followed at once by its own settlement, so no call is made
  while another is pending, and a rejection can only be the last event. The calls made
  while a source message is processed are a subsequence of that message's responses
  collection, in the collection's order (taken once for each time the mapping holds the
  message). And when no call is rejected and no response is recorded twice under the
  messages with a deletable command, the calls of the whole run are exactly the responses
  not yet marked deleted, in the order of each collection, message after message.
\<close>

theorem bulk_delete_sequential:
  assumes "marks_only del"
  shows "one_at_a_time (fst (coreMessageDeleteBulk_run del messages s))
       \<and> subseq (requested_for m (fst (coreMessageDeleteBulk_run del messages s)))
           (concat (map (\<lambda>m'. responses (s m')) (filter (\<lambda>m'. m' = m) (values_of messages))))
       \<and> (\<not> isl (snd (coreMessageDeleteBulk_run del messages s))
           \<and> distinct (concat (map (\<lambda>m'. responses (s m'))
                 (filter (\<lambda>m'. command_deletable (s m')) (values_of messages))))
           \<longrightarrow> requested (fst (coreMessageDeleteBulk_run del messages s))
                 = concat (map (\<lambda>m'. filter (\<lambda>r. \<not> truthy (deleted (s r))) (responses (s m')))
                     (filter (\<lambda>m'. command_deletable (s m')) (values_of messages))))"
proof -
  obtain evs out where run: "run_messages del (values_of messages) s = (evs, out)"
    by (cases "run_messages del (values_of messages) s")
  have a: "one_at_a_time evs"
    by (rule run_messages_one_at_a_time[OF run])
  have b: "subseq (requested_for m evs)
      (concat (map (\<lambda>m'. responses (s m')) (filter (\<lambda>m'. m' = m) (values_of messages))))"
    by (rule run_messages_order[OF assms run])
  have c: "requested evs
      = concat (map (\<lambda>m'. filter (\<lambda>r. \<not> truthy (deleted (s r))) (responses (s m')))
          (filter (\<lambda>m'. command_deletable (s m')) (values_of messages)))"
    if ok: "\<not> isl out"
      and dist: "distinct (concat (map (\<lambda>m'. responses (s m'))
          (filter (\<lambda>m'. command_deletable (s m')) (values_of messages))))"
  proof -
    from ok obtain s' where "out = Inr s'" by (cases out) auto
    from run_messages_exact[OF assms run[unfolded this] dist] show ?thesis .
  qed
  from a b c show ?thesis by (simp add: coreMessageDeleteBulk_run_def run)
qed

theorem bulk_delete_sequential_witness:
  "fst (coreMessageDeleteBulk_run delete_marking order_cache example_store)
     = [DeleteCall 7 8, DeleteResolved 7 8, DeleteCall 7 9, DeleteResolved 7 9,
        DeleteCall 0 2, DeleteResolved 0 2]
   \<and> one_at_a_time (fst (coreMessageDeleteBulk_run delete_marking order_cache example_store))
   \<and> subseq (requested_for 7
        (fst (coreMessageDeleteBulk_run delete_marking order_cache example_store))) [8, 9]
   \<and> requested (fst (coreMessageDeleteBulk_run delete_marking order_cache example_store))
       = [8, 9, 2]"
proof -
  have trace: "coreMessageDeleteBulk_run delete_marking order_cache example_store
      = ([DeleteCall 7 8, DeleteResolved 7 8, DeleteCall 7 9, DeleteResolved 7 9,
          DeleteCall 0 2, DeleteResolved 0 2],
         Inr (example_store
           (8 := (example_store 8)\<lparr>deleted := JBool True\<rparr>,
            9 := (example_store 9)\<lparr>deleted := JBool True\<rparr>,
            2 := (example_store 2)\<lparr>deleted := JBool True\<rparr>)))"
    by (simp add: coreMessageDeleteBulk_run_def values_of_def order_cache_def example_store_def
        delete_marking_def blank_message_def command_deletable_def)
  have ok: "\<not> isl (snd (coreMessageDeleteBulk_run delete_marking order_cache example_store))"
    by (simp add: trace)
  have own: "concat (map (\<lambda>m'. responses (example_store m'))
      (filter (\<lambda>m'. m' = 7) (values_of order_cache))) = [8, 9]"
    by (simp add: values_of_def order_cache_def example_store_def)
  have all: "concat (map (\<lambda>m'. responses (example_store m'))
      (filter (\<lambda>m'. command_deletable (example_store m')) (values_of order_cache)))
      = [8, 9, 1, 2]"
    by (simp add: values_of_def order_cache_def example_store_def command_deletable_def)
  have live: "concat (map (\<lambda>m'. filter (\<lambda>r. \<not> truthy (deleted (example_store r)))
        (responses (example_store m')))
      (filter (\<lambda>m'. command_deletable (example_store m')) (values_of order_cache)))
      = [8, 9, 2]"
    by (simp add: values_of_def order_cache_def example_store_def command_deletable_def
        blank_message_def)
  from bulk_delete_sequential[OF marks_only_delete_marking,
      of order_cache example_store 7] ok
  have "one_at_a_time (fst (coreMessageDeleteBulk_run delete_marking order_cache example_store))"
    and "subseq (requested_for 7
        (fst (coreMessageDeleteBulk_run delete_marking order_cache example_store))) [8, 9]"
    and "requested (fst (coreMessageDeleteBulk_run delete_marking order_cache example_store))
       = [8, 9, 2]"
    by (simp_all add: own all live)
  with trace show ?thesis by simp
qed

end
